theory Spec2Isabelle
  imports Complex_Main "HOL-Library.Multiset"
begin

section \<open>Runtime values\<close>

text \<open>
  The functions of \<^verbatim>\<open>ui/utils/sort.ts\<close> take arguments of type \<^verbatim>\<open>any\<close>. The values
  are modelled by a datatype with one constructor for each shape the classifier
  \<^verbatim>\<open>typeOf\<close> tells apart.

  A number is an IEEE double. Only the sign of a difference is ever looked at, and rounding
  a difference of two doubles keeps its sign, so a finite double is modelled by the rational
  it denotes; the three special values are kept apart.
\<close>

datatype jsnum = NaN | NegInf | Fin rat | PosInf

datatype jsval =
    Undefined
  | Null
  | JBool bool
  | JNum jsnum
  | JStr string
  | JFun nat string \<comment> \<open>number of parameters, source text\<close>
  | JArr "jsval list"
  | JDate jsnum \<comment> \<open>time value, \<open>NaN\<close> for an invalid date\<close>
  | JRegExp string string \<comment> \<open>source, flags\<close>
  | JObj "(string \<times> jsval) list"
  | JFileList "jsval list"
  | JError string \<comment> \<open>message of a plain \<^verbatim>\<open>new Error(message)\<close>\<close>

datatype error = TypeError

text \<open>
  What the code takes from outside the file: the built-in conversions of the language whose
  results depend on the engine or the locale, and the field reader \<^verbatim>\<open>get\<close> imported from
  \<^verbatim>\<open>./object\<close>.
\<close>

record env =
  localeCompare :: "string \<Rightarrow> string \<Rightarrow> int"
  StringToNumber :: "string \<Rightarrow> jsnum"
  NumberToString :: "jsnum \<Rightarrow> string"
  DateToString :: "jsnum \<Rightarrow> string"
  get :: "jsval \<Rightarrow> string \<Rightarrow> jsval"

subsection \<open>Number arithmetic\<close>

fun num_sub :: "jsnum \<Rightarrow> jsnum \<Rightarrow> jsnum" where
  "num_sub NaN _ = NaN"
| "num_sub _ NaN = NaN"
| "num_sub (Fin x) (Fin y) = Fin (x - y)"
| "num_sub PosInf PosInf = NaN"
| "num_sub NegInf NegInf = NaN"
| "num_sub PosInf _ = PosInf"
| "num_sub NegInf _ = NegInf"
| "num_sub (Fin x) PosInf = NegInf"
| "num_sub (Fin x) NegInf = PosInf"

fun num_less :: "jsnum \<Rightarrow> jsnum \<Rightarrow> bool" where
  "num_less NaN _ = False"
| "num_less _ NaN = False"
| "num_less (Fin x) (Fin y) = (x < y)"
| "num_less NegInf NegInf = False"
| "num_less NegInf _ = True"
| "num_less _ NegInf = False"
| "num_less PosInf _ = False"
| "num_less (Fin x) PosInf = True"

text \<open>\<^verbatim>\<open>Math.min\<close>: \<open>NaN\<close> as soon as one argument is.\<close>

fun math_min :: "jsnum \<Rightarrow> jsnum \<Rightarrow> jsnum" where
  "math_min NaN _ = NaN"
| "math_min _ NaN = NaN"
| "math_min x y = (if num_less y x then y else x)"

subsection \<open>Conversions\<close>

text \<open>
  \<open>to_string\<close> is the conversion a template literal and a string argument apply;
  \<open>join_elems\<close> is \<^verbatim>\<open>Array.prototype.join\<close> with the separator \<^verbatim>\<open>","\<close>, which prints
  \<^verbatim>\<open>undefined\<close> and \<^verbatim>\<open>null\<close> elements as the empty string.
\<close>

fun to_string :: "env \<Rightarrow> jsval \<Rightarrow> string"
and join_elems :: "env \<Rightarrow> jsval list \<Rightarrow> string" where
  "to_string H Undefined = ''undefined''"
| "to_string H Null = ''null''"
| "to_string H (JBool b) = (if b then ''true'' else ''false'')"
| "to_string H (JNum n) = NumberToString H n"
| "to_string H (JStr s) = s"
| "to_string H (JFun n src) = src"
| "to_string H (JArr xs) = join_elems H xs"
| "to_string H (JDate t) = DateToString H t"
| "to_string H (JRegExp src flags) = ''/'' @ src @ ''/'' @ flags"
| "to_string H (JObj kvs) = ''[object Object]''"
| "to_string H (JFileList fs) = ''[object FileList]''"
| "to_string H (JError msg) = (if msg = [] then ''Error'' else ''Error: '' @ msg)"
| "join_elems H [] = []"
| "join_elems H (x # xs) =
     (if x = Undefined \<or> x = Null then [] else to_string H x)
     @ (if xs = [] then [] else '','' @ join_elems H xs)"

text \<open>
  \<open>to_number\<close> is the conversion the operator \<^verbatim>\<open>-\<close> applies to each operand. An object
  other than a date is first turned into its string.
\<close>

fun to_number :: "env \<Rightarrow> jsval \<Rightarrow> jsnum" where
  "to_number H Undefined = NaN"
| "to_number H Null = Fin 0"
| "to_number H (JBool b) = (if b then Fin 1 else Fin 0)"
| "to_number H (JNum n) = n"
| "to_number H (JStr s) = StringToNumber H s"
| "to_number H (JDate t) = t"
| "to_number H v = StringToNumber H (to_string H v)"

section \<open>The classifier\<close>

definition TYPE_MAP :: "(string \<times> string) list" where
  "TYPE_MAP =
    [(''[object Boolean]'', ''boolean''),
     (''[object Number]'', ''number''),
     (''[object String]'', ''string''),
     (''[object Function]'', ''function''),
     (''[object Array]'', ''array''),
     (''[object Date]'', ''date''),
     (''[object RegExp]'', ''regexp''),
     (''[object Object]'', ''object''),
     (''[object FileList]'', ''filelist'')]"

text \<open>\<^verbatim>\<open>Object.prototype.toString.call(item)\<close>, the engine's tag of a value.\<close>

fun object_tag :: "jsval \<Rightarrow> string" where
  "object_tag Undefined = ''[object Undefined]''"
| "object_tag Null = ''[object Null]''"
| "object_tag (JBool b) = ''[object Boolean]''"
| "object_tag (JNum n) = ''[object Number]''"
| "object_tag (JStr s) = ''[object String]''"
| "object_tag (JFun n src) = ''[object Function]''"
| "object_tag (JArr xs) = ''[object Array]''"
| "object_tag (JDate t) = ''[object Date]''"
| "object_tag (JRegExp src flags) = ''[object RegExp]''"
| "object_tag (JObj kvs) = ''[object Object]''"
| "object_tag (JFileList fs) = ''[object FileList]''"
| "object_tag (JError msg) = ''[object Error]''"

fun instanceof_Error :: "jsval \<Rightarrow> bool" where
  "instanceof_Error (JError msg) = True"
| "instanceof_Error _ = False"

fun instanceof_Date :: "jsval \<Rightarrow> bool" where
  "instanceof_Date (JDate t) = True"
| "instanceof_Date _ = False"

definition typeOf :: "jsval \<Rightarrow> string" where
  "typeOf item =
    (if item = Null then ''null''
     else if item = Undefined then ''undefined''
     else
       let ret = (case map_of TYPE_MAP (object_tag item) of Some t \<Rightarrow> t | None \<Rightarrow> ''object'')
       in if ret = ''object''
          then (if instanceof_Error item then ''error''
                else if instanceof_Date item then ''date''
                else ret)
          else ret)"

section \<open>The comparator\<close>

definition TYPE_ORDER :: "(string \<times> nat) list" where
  "TYPE_ORDER =
    [(''undefined'', 0),
     (''null'', 1),
     (''boolean'', 2),
     (''number'', 3),
     (''string'', 4),
     (''array'', 5),
     (''object'', 6),
     (''instance'', 7),
     (''function'', 8),
     (''class'', 9),
     (''date'', 10)]"

text \<open>\<^verbatim>\<open>TYPE_ORDER[t]\<close>: reading a key the table does not have gives \<^verbatim>\<open>undefined\<close>.\<close>

definition TYPE_ORDER_at :: "string \<Rightarrow> jsval" where
  "TYPE_ORDER_at t =
    (case map_of TYPE_ORDER t of Some n \<Rightarrow> JNum (Fin (of_nat n)) | None \<Rightarrow> Undefined)"

definition spaceship :: "env \<Rightarrow> jsval \<Rightarrow> jsval \<Rightarrow> int" where
  "spaceship H a b =
    (let diff = num_sub (to_number H a) (to_number H b)
     in (if num_less (Fin 0) diff then 1 else 0) - (if num_less diff (Fin 0) then 1 else 0))"

text \<open>
  The property reads and method calls of \<^verbatim>\<open>compare\<close>. Reading a property of
  \<^verbatim>\<open>undefined\<close> or \<^verbatim>\<open>null\<close> throws, and so does calling a method the value does not have.
\<close>

fun length_prop :: "jsval \<Rightarrow> error + jsval" where
  "length_prop Undefined = Inl TypeError"
| "length_prop Null = Inl TypeError"
| "length_prop (JStr s) = Inr (JNum (Fin (of_nat (length s))))"
| "length_prop (JFun n src) = Inr (JNum (Fin (of_nat n)))"
| "length_prop (JArr xs) = Inr (JNum (Fin (of_nat (length xs))))"
| "length_prop (JFileList fs) = Inr (JNum (Fin (of_nat (length fs))))"
| "length_prop _ = Inr Undefined"

fun index_prop :: "jsval \<Rightarrow> nat \<Rightarrow> error + jsval" where
  "index_prop Undefined i = Inl TypeError"
| "index_prop Null i = Inl TypeError"
| "index_prop (JStr s) i = Inr (if i < length s then JStr [s ! i] else Undefined)"
| "index_prop (JArr xs) i = Inr (if i < length xs then xs ! i else Undefined)"
| "index_prop (JFileList fs) i = Inr (if i < length fs then fs ! i else Undefined)"
| "index_prop _ i = Inr Undefined"

fun call_getTime :: "jsval \<Rightarrow> error + jsval" where
  "call_getTime (JDate t) = Inr (JNum t)"
| "call_getTime _ = Inl TypeError"

fun call_localeCompare :: "env \<Rightarrow> jsval \<Rightarrow> jsval \<Rightarrow> error + jsval" where
  "call_localeCompare H (JStr s) b =
     Inr (JNum (Fin (of_int (localeCompare H s (to_string H b)))))"
| "call_localeCompare H _ b = Inl TypeError"

text \<open>
  \<open>compare_loop H xs b i len\<close> is the \<^verbatim>\<open>for\<close> loop of the array case from index \<open>i\<close> on,
  \<open>xs\<close> being the elements of \<^verbatim>\<open>a\<close> from \<open>i\<close> on. It gives the first non-zero result,
  and \<open>0\<close> when the loop runs to its end.

  The \<^verbatim>\<open>switch\<close> is on the kind of \<^verbatim>\<open>a\<close> alone. When the comparison of the precedences
  is \<open>0\<close> because the kind of \<^verbatim>\<open>b\<close> is not in the table, \<^verbatim>\<open>b\<close> is of another kind than
  the case expects. In the case \<^verbatim>\<open>'array'\<close> the value \<^verbatim>\<open>a\<close> is an array, so the last
  branch of the case distinction on \<open>a\<close> is never taken.
\<close>

fun compare :: "env \<Rightarrow> jsval \<Rightarrow> jsval \<Rightarrow> error + int"
and compare_loop :: "env \<Rightarrow> jsval list \<Rightarrow> jsval \<Rightarrow> nat \<Rightarrow> jsnum \<Rightarrow> error + int" where
  "compare H a b =
    (let typeA = typeOf a;
         typeB = typeOf b;
         res = spaceship H (TYPE_ORDER_at typeA) (TYPE_ORDER_at typeB)
     in if res \<noteq> 0 then Inr res
        else if typeA = ''boolean'' \<or> typeA = ''number'' then Inr (spaceship H a b)
        else if typeA = ''string'' then
          (case call_localeCompare H a b of
             Inl e \<Rightarrow> Inl e
           | Inr n \<Rightarrow> Inr (spaceship H n (JNum (Fin 0))))
        else if typeA = ''array'' then
          (case a of
             JArr xs \<Rightarrow>
               (case length_prop b of
                  Inl e \<Rightarrow> Inl e
                | Inr bLen \<Rightarrow>
                    (let aLen = JNum (Fin (of_nat (length xs)));
                         len = math_min (to_number H aLen) (to_number H bLen)
                     in case compare_loop H xs b 0 len of
                          Inl e \<Rightarrow> Inl e
                        | Inr r \<Rightarrow> if r \<noteq> 0 then Inr r else Inr (spaceship H aLen bLen)))
           | _ \<Rightarrow> Inr 0)
        else if typeA = ''date'' then
          (case call_getTime a of
             Inl e \<Rightarrow> Inl e
           | Inr ta \<Rightarrow>
               (case call_getTime b of
                  Inl e \<Rightarrow> Inl e
                | Inr tb \<Rightarrow> Inr (spaceship H ta tb)))
        else Inr 0)"
| "compare_loop H [] b i len = Inr 0"
| "compare_loop H (x # xs) b i len =
    (if num_less (Fin (of_nat i)) len
     then (case index_prop b i of
             Inl e \<Rightarrow> Inl e
           | Inr y \<Rightarrow>
               (case compare H x y of
                  Inl e \<Rightarrow> Inl e
                | Inr r \<Rightarrow> if r \<noteq> 0 then Inr r else compare_loop H xs b (Suc i) len))
     else Inr 0)"

section \<open>Sorting by field paths\<close>

record ISortOpt =
  field :: string
  reverse :: bool

text \<open>\<^verbatim>\<open>str.split(c)\<close> for a separator of one character: the pieces between its occurrences.\<close>

fun split_on :: "char \<Rightarrow> string \<Rightarrow> string list" where
  "split_on c [] = [[]]"
| "split_on c (x # xs) =
    (if x = c then [] # split_on c xs
     else (case split_on c xs of
             [] \<Rightarrow> [[x]]
           | p # ps \<Rightarrow> (x # p) # ps))"

definition parseField :: "string \<Rightarrow> ISortOpt" where
  "parseField str =
    (let parts = split_on CHR '':'' str
     in if length parts = 2 \<and> parts ! 1 = ''desc''
        then \<lparr>field = parts ! 0, reverse = True\<rparr>
        else \<lparr>field = str, reverse = False\<rparr>)"

text \<open>The argument \<^verbatim>\<open>keys: string | string[]\<close> and its normalisation to a list.\<close>

datatype keys_arg = OneKey string | KeyList "string list"

fun as_key_list :: "keys_arg \<Rightarrow> string list" where
  "as_key_list (OneKey k) = [k]"
| "as_key_list (KeyList ks) = ks"

text \<open>
  The callback \<^verbatim>\<open>sortBy\<close> hands to \<^verbatim>\<open>sort\<close>: the loop over the keys. The optional flag
  \<^verbatim>\<open>desc?: boolean\<close> is \<open>None\<close> when the caller leaves it out.
\<close>

fun sortBy_comparefn ::
  "env \<Rightarrow> string list \<Rightarrow> bool option \<Rightarrow> jsval \<Rightarrow> jsval \<Rightarrow> error + int" where
  "sortBy_comparefn H [] desc objA objB = Inr 0"
| "sortBy_comparefn H (k # ks) desc objA objB =
    (let parsed = parseField k;
         a = get H objA (field parsed);
         b = get H objB (field parsed)
     in case compare H a b of
          Inl e \<Rightarrow> Inl e
        | Inr res \<Rightarrow>
            if res \<noteq> 0
            then (let res1 = (if desc = Some True then res * (- 1) else res);
                      res2 = (if reverse parsed then res1 * (- 1) else res1)
                  in Inr res2)
            else sortBy_comparefn H ks desc objA objB)"

subsection \<open>The engine's sort\<close>

text \<open>
  \<^verbatim>\<open>Array.prototype.sort\<close> never hands an \<^verbatim>\<open>undefined\<close> element to the callback: it
  orders \<^verbatim>\<open>undefined\<close> after every other element.
\<close>

definition SortCompare ::
  "(jsval \<Rightarrow> jsval \<Rightarrow> error + int) \<Rightarrow> jsval \<Rightarrow> jsval \<Rightarrow> error + int" where
  "SortCompare comparefn x y =
    (if x = Undefined \<and> y = Undefined then Inr 0
     else if x = Undefined then Inr 1
     else if y = Undefined then Inr (- 1)
     else comparefn x y)"

text \<open>
  The language leaves the algorithm to the engine and asks for a stable result. The model
  is a stable insertion sort; an exception of the callback ends the sort.
\<close>

fun insert_elem :: "('a \<Rightarrow> 'a \<Rightarrow> error + int) \<Rightarrow> 'a \<Rightarrow> 'a list \<Rightarrow> error + 'a list" where
  "insert_elem cmp x [] = Inr [x]"
| "insert_elem cmp x (y # ys) =
    (case cmp x y of
       Inl e \<Rightarrow> Inl e
     | Inr r \<Rightarrow>
         if r \<le> 0 then Inr (x # y # ys)
         else (case insert_elem cmp x ys of
                 Inl e \<Rightarrow> Inl e
               | Inr zs \<Rightarrow> Inr (y # zs)))"

fun sort_elems :: "('a \<Rightarrow> 'a \<Rightarrow> error + int) \<Rightarrow> 'a list \<Rightarrow> error + 'a list" where
  "sort_elems cmp [] = Inr []"
| "sort_elems cmp (x # xs) =
    (case sort_elems cmp xs of
       Inl e \<Rightarrow> Inl e
     | Inr ys \<Rightarrow> insert_elem cmp x ys)"

subsection \<open>Arrays in a store\<close>

text \<open>
  \<^verbatim>\<open>sort\<close> reorders the array it is called on, and \<^verbatim>\<open>slice\<close> allocates a copy. To tell
  the two apart an array is a reference into a store: the store is the list of the arrays
  allocated so far, and a reference is a position in it.
\<close>

type_synonym store = "jsval list list"

definition array_slice :: "store \<Rightarrow> nat \<Rightarrow> nat \<times> store" where
  "array_slice h a = (length h, h @ [h ! a])"

definition array_sort ::
  "(jsval \<Rightarrow> jsval \<Rightarrow> error + int) \<Rightarrow> store \<Rightarrow> nat \<Rightarrow> (error + nat) \<times> store" where
  "array_sort comparefn h a =
    (case sort_elems (SortCompare comparefn) (h ! a) of
       Inl e \<Rightarrow> (Inl e, h)
     | Inr ys \<Rightarrow> (Inr a, h[a := ys]))"

definition sortBy ::
  "env \<Rightarrow> store \<Rightarrow> nat \<Rightarrow> keys_arg \<Rightarrow> bool option \<Rightarrow> (error + nat) \<times> store" where
  "sortBy H h ary keys desc =
    (let ks = as_key_list keys;
         (c, h1) = array_slice h ary
     in array_sort (sortBy_comparefn H ks desc) h1 c)"

section \<open>Strings\<close>

text \<open>
  A string is a list of 8-bit characters, read as the code units \<open>0\<close> to \<open>255\<close>. On
  these, white space (what \<^verbatim>\<open>trim\<close> removes and \<^verbatim>\<open>\s\<close> matches) is tab, line feed,
  vertical tab, form feed, carriage return, space and no-break space, and
  \<^verbatim>\<open>toLowerCase\<close> moves \<^verbatim>\<open>A\<close> to \<^verbatim>\<open>Z\<close> and the capital letters of the upper half.
\<close>

definition is_ws :: "char \<Rightarrow> bool" where
  "is_ws c \<longleftrightarrow>
    c = CHR 0x09 \<or> c = CHR 0x0A \<or> c = CHR 0x0B \<or> c = CHR 0x0C \<or> c = CHR 0x0D
    \<or> c = CHR 0x20 \<or> c = CHR 0xA0"

definition is_digit :: "char \<Rightarrow> bool" where
  "is_digit c \<longleftrightarrow> c \<in> set ''0123456789''"

definition trim :: "string \<Rightarrow> string" where
  "trim s = rev (dropWhile is_ws (rev (dropWhile is_ws s)))"

definition lower_char :: "char \<Rightarrow> char" where
  "lower_char c =
    (let n = (of_char c :: nat)
     in if (65 \<le> n \<and> n \<le> 90) \<or> (192 \<le> n \<and> n \<le> 222 \<and> n \<noteq> 215)
        then char_of (n + 32) else c)"

definition toLowerCase :: "string \<Rightarrow> string" where
  "toLowerCase s = map lower_char s"

text \<open>\<^verbatim>\<open>s.includes(t)\<close>: \<open>t\<close> occurs in \<open>s\<close> as a contiguous piece.\<close>

fun str_includes :: "string \<Rightarrow> string \<Rightarrow> bool" where
  "str_includes [] t = (t = [])"
| "str_includes (x # xs) t = (take (length t) (x # xs) = t \<or> str_includes xs t)"

text \<open>\<^verbatim>\<open>s.indexOf(c)\<close> where \<open>c\<close> occurs in \<open>s\<close>, and the two forms of \<^verbatim>\<open>substring\<close>.\<close>

definition indexOf :: "string \<Rightarrow> char \<Rightarrow> nat" where
  "indexOf s c = length (takeWhile (\<lambda>x. x \<noteq> c) s)"

definition substring :: "string \<Rightarrow> nat \<Rightarrow> nat \<Rightarrow> string" where
  "substring s start stop =
    (let a = min start (length s); b = min stop (length s)
     in take (max a b - min a b) (drop (min a b) s))"

definition substring_from :: "string \<Rightarrow> nat \<Rightarrow> string" where
  "substring_from s start = drop start s"

section \<open>Keys with numbers in them\<close>

text \<open>
  \<^verbatim>\<open>str.split(/([^\d]+)/)\<close>: the separator is a maximal run of characters other than
  digits, and the capture group puts each separator into the result. The pieces are
  digits, separator, digits, separator, ..., digits, where a piece of digits is empty when
  the string starts or ends with a separator.
\<close>

lemma dropWhile_not_digit_shorter:
  "dropWhile is_digit s \<noteq> [] \<Longrightarrow>
   length (dropWhile (\<lambda>c. \<not> is_digit c) (dropWhile is_digit s)) < length s"
proof -
  assume ne: "dropWhile is_digit s \<noteq> []"
  then obtain x r where r: "dropWhile is_digit s = x # r"
    by (cases "dropWhile is_digit s") auto
  then have "\<not> is_digit x"
    using hd_dropWhile [OF ne] by simp
  then have "length (dropWhile (\<lambda>c. \<not> is_digit c) (x # r)) \<le> length r"
    by (simp add: length_dropWhile_le)
  also have "length r < length (dropWhile is_digit s)"
    using r by simp
  also have "\<dots> \<le> length s"
    by (rule length_dropWhile_le)
  finally show ?thesis using r by simp
qed

function split_splitRegex :: "string \<Rightarrow> string list" where
  "split_splitRegex s =
    (let d = takeWhile is_digit s; r = dropWhile is_digit s
     in if r = [] then [d]
        else d # takeWhile (\<lambda>c. \<not> is_digit c) r
               # split_splitRegex (dropWhile (\<lambda>c. \<not> is_digit c) r))"
  by pat_completeness auto
termination
  by (relation "measure length") (auto simp: dropWhile_not_digit_shorter)

text \<open>\<^verbatim>\<open>x.match(/^[0-9]+$/)\<close> finds a match: \<open>x\<close> is one digit or more and nothing else.\<close>

definition match_notNumericRegex :: "string \<Rightarrow> bool" where
  "match_notNumericRegex x \<longleftrightarrow> x \<noteq> [] \<and> list_all is_digit x"

text \<open>
  Modelled from the spec: \<^verbatim>\<open>strPad\<close> is imported from \<^verbatim>\<open>./string\<close>, which is not among
  the sources. The spec describes it as the padding primitive
  \<^verbatim>\<open>pad(str, width, padChar)\<close> that pads on the left, and says that a run longer than the
  width passes through as it is.
\<close>

definition strPad :: "string \<Rightarrow> nat \<Rightarrow> char \<Rightarrow> string" where
  "strPad str width padChar =
    (if width \<le> length str then str
     else replicate (width - length str) padChar @ str)"

definition sortableNumericSuffix :: "jsval \<Rightarrow> jsval" where
  "sortableNumericSuffix str =
    (case str of
       JStr s \<Rightarrow>
         JStr (trim (concat (map (\<lambda>x. if match_notNumericRegex x then strPad x 10 CHR ''0'' else x)
                              (split_splitRegex s))))
     | _ \<Rightarrow> str)"

section \<open>Searching\<close>

record FieldSpec =
  field :: string
  modifier :: string

text \<open>
  \<^verbatim>\<open>query.split(/\s*[, ]\s*/)\<close>. \<open>sep_match s\<close> is the length of the match of the
  separator at the start of \<open>s\<close>, if there is one. The first \<^verbatim>\<open>\s*\<close> takes the white
  space \<open>w\<close> in front; when a comma follows, the match is \<open>w\<close>, the comma and the white
  space behind it; otherwise the class \<^verbatim>\<open>[, ]\<close> can only take a space out of \<open>w\<close>, and
  the match is \<open>w\<close> when \<open>w\<close> has a space in it.
\<close>

definition sep_match :: "string \<Rightarrow> nat option" where
  "sep_match s =
    (let w = takeWhile is_ws s; r = dropWhile is_ws s
     in if r \<noteq> [] \<and> hd r = CHR '',''
        then Some (length w + 1 + length (takeWhile is_ws (tl r)))
        else if CHR '' '' \<in> set w then Some (length w)
        else None)"

lemma sep_match_pos: "sep_match s = Some n \<Longrightarrow> 0 < n"
  by (cases "takeWhile is_ws s") (auto simp: sep_match_def Let_def split: if_splits)

text \<open>
  \<open>split_tokens cur s\<close> splits the rest \<open>s\<close> of the query, \<open>cur\<close> being the piece read
  since the last separator.
\<close>

function split_tokens :: "string \<Rightarrow> string \<Rightarrow> string list" where
  "split_tokens cur [] = [cur]"
| "split_tokens cur (c # cs) =
    (case sep_match (c # cs) of
       Some n \<Rightarrow> cur # split_tokens [] (drop n (c # cs))
     | None \<Rightarrow> split_tokens (cur @ [c]) cs)"
  by pat_completeness auto
termination
  by (relation "measure (\<lambda>(cur, s). length s)") (auto dest: sep_match_pos)

text \<open>The callback of \<^verbatim>\<open>keys.map\<close>, statement by statement.\<close>

definition search_field_spec :: "string \<Rightarrow> FieldSpec" where
  "search_field_spec field0 =
    (if CHR '':'' \<in> set field0
     then (let idx = indexOf field0 CHR '':'';
               field1 = substring field0 0 idx;
               modifier1 = substring_from field1 (idx + 1)
           in \<lparr>field = field1, modifier = modifier1\<rparr>)
     else \<lparr>field = field0, modifier = []\<rparr>)"

text \<open>The body of the loop over the field specs: the new value of \<^verbatim>\<open>tokenMatches\<close>.\<close>

definition spec_matches :: "env \<Rightarrow> jsval \<Rightarrow> string \<Rightarrow> FieldSpec \<Rightarrow> bool" where
  "spec_matches H row token spec =
    (let val = toLowerCase (to_string H (get H row (FieldSpec.field spec)))
     in if modifier spec = ''exact'' then val = token else str_includes val token)"

text \<open>The three loops; each gives the value its flag has when the loop is left.\<close>

fun fields_loop :: "env \<Rightarrow> jsval \<Rightarrow> string \<Rightarrow> FieldSpec list \<Rightarrow> bool" where
  "fields_loop H row token [] = False"
| "fields_loop H row token (spec # specs) =
    (if spec_matches H row token spec then True else fields_loop H row token specs)"

fun tokens_loop :: "env \<Rightarrow> jsval \<Rightarrow> FieldSpec list \<Rightarrow> string list \<Rightarrow> bool" where
  "tokens_loop H row specs [] = False"
| "tokens_loop H row specs (token # tokens) =
    (if fields_loop H row token specs then True else tokens_loop H row specs tokens)"

fun rows_loop ::
  "env \<Rightarrow> string list \<Rightarrow> FieldSpec list \<Rightarrow> jsval list \<Rightarrow> jsval list \<Rightarrow> jsval list" where
  "rows_loop H tokens specs [] out = out"
| "rows_loop H tokens specs (row # rows) out =
    rows_loop H tokens specs rows
      (if tokens_loop H row specs tokens then out @ [row] else out)"

text \<open>
  The query is \<open>None\<close> when the caller passes \<^verbatim>\<open>undefined\<close> or \<^verbatim>\<open>null\<close>, which
  \<^verbatim>\<open>query || ''\<close> replaces by the empty string.
\<close>

definition query_tokens :: "string option \<Rightarrow> string list" where
  "query_tokens query =
    split_tokens [] (toLowerCase (trim (case query of None \<Rightarrow> [] | Some q \<Rightarrow> q)))"

definition search_fields :: "keys_arg \<Rightarrow> FieldSpec list" where
  "search_fields keys = map search_field_spec (as_key_list keys)"

definition search :: "env \<Rightarrow> jsval list \<Rightarrow> string option \<Rightarrow> keys_arg \<Rightarrow> jsval list" where
  "search H ary query keys =
    rows_loop H (query_tokens query) (search_fields keys) ary []"

text \<open>
  The rule of the spec and the rule the loops implement, for one record: a token matches
  when some field spec matches it; the spec keeps the record when every token matches, the
  loops keep it when some token does.
\<close>

definition every_token_matches ::
  "env \<Rightarrow> jsval \<Rightarrow> string list \<Rightarrow> FieldSpec list \<Rightarrow> bool" where
  "every_token_matches H row tokens specs =
    list_all (\<lambda>token. list_ex (spec_matches H row token) specs) tokens"

definition some_token_matches ::
  "env \<Rightarrow> jsval \<Rightarrow> string list \<Rightarrow> FieldSpec list \<Rightarrow> bool" where
  "some_token_matches H row tokens specs =
    list_ex (\<lambda>token. list_ex (spec_matches H row token) specs) tokens"

section \<open>The normaliser in the words of the spec\<close>

text \<open>
  \<open>runs s\<close> cuts \<open>s\<close> into its maximal runs of digits and of other characters, in order;
  \<open>pad_run\<close> pads a run of one to ten digits to ten characters and leaves every other run.
\<close>

function runs :: "string \<Rightarrow> string list" where
  "runs [] = []"
| "runs (c # cs) =
    (if is_digit c
     then (c # takeWhile is_digit cs) # runs (dropWhile is_digit cs)
     else (c # takeWhile (\<lambda>x. \<not> is_digit x) cs) # runs (dropWhile (\<lambda>x. \<not> is_digit x) cs))"
  by pat_completeness auto
termination
  by (relation "measure length") (auto simp: length_dropWhile_le less_Suc_eq_le)

definition pad_run :: "string \<Rightarrow> string" where
  "pad_run r =
    (if r \<noteq> [] \<and> list_all is_digit r \<and> length r \<le> 10
     then replicate (10 - length r) CHR ''0'' @ r
     else r)"

section \<open>An environment for examples\<close>

text \<open>
  \<open>code_unit_compare\<close> orders strings by their code units, as \<^verbatim>\<open>localeCompare\<close> does on
  plain letters of one case.
\<close>

fun code_unit_compare :: "string \<Rightarrow> string \<Rightarrow> int" where
  "code_unit_compare [] [] = 0"
| "code_unit_compare [] (y # ys) = - 1"
| "code_unit_compare (x # xs) [] = 1"
| "code_unit_compare (x # xs) (y # ys) =
    (if (of_char x :: nat) < of_char y then - 1
     else if (of_char y :: nat) < of_char x then 1
     else code_unit_compare xs ys)"

text \<open>
  Modelled from the spec: \<^verbatim>\<open>get\<close> is imported from \<^verbatim>\<open>./object\<close>, which is not among the
  sources. The spec describes it as a reader that resolves a dotted path against a record
  and gives \<^verbatim>\<open>undefined\<close> when the path is missing. The theorems below hold for every
  reader; this one serves the examples.
\<close>

fun get_steps :: "jsval \<Rightarrow> string list \<Rightarrow> jsval" where
  "get_steps v [] = v"
| "get_steps (JObj kvs) (k # ks) =
    (case map_of kvs k of None \<Rightarrow> Undefined | Some w \<Rightarrow> get_steps w ks)"
| "get_steps _ (k # ks) = Undefined"

definition get_path :: "jsval \<Rightarrow> string \<Rightarrow> jsval" where
  "get_path v path = get_steps v (split_on CHR ''.'' path)"

text \<open>The conversions that no example uses are left unspecified.\<close>

definition sample_env :: env where
  "sample_env =
    \<lparr>localeCompare = code_unit_compare, StringToNumber = undefined,
     NumberToString = undefined, DateToString = undefined, get = get_path\<rparr>"

text \<open>A store with one array of three records, and the number a record has in a field.\<close>

definition num_field :: "string \<Rightarrow> jsval \<Rightarrow> rat" where
  "num_field f x = (case get_path x f of JNum (Fin q) \<Rightarrow> q | _ \<Rightarrow> 0)"

definition sample_store :: store where
  "sample_store =
    [[JObj [(''a'', JNum (Fin 2))], JObj [(''a'', JNum (Fin 1))], JObj [(''a'', JNum (Fin 3))]]]"

section \<open>Properties of the classifier and the comparator\<close>

lemma typeOf_simps [simp]:
  "typeOf Undefined = ''undefined''"
  "typeOf Null = ''null''"
  "typeOf (JBool b) = ''boolean''"
  "typeOf (JNum n) = ''number''"
  "typeOf (JStr s) = ''string''"
  "typeOf (JFun k src) = ''function''"
  "typeOf (JArr xs) = ''array''"
  "typeOf (JDate t) = ''date''"
  "typeOf (JRegExp src fl) = ''regexp''"
  "typeOf (JObj kvs) = ''object''"
  "typeOf (JFileList fs) = ''filelist''"
  "typeOf (JError msg) = ''error''"
  by (simp_all add: typeOf_def TYPE_MAP_def)

lemma typeOf_number: "typeOf a = ''number'' \<Longrightarrow> \<exists>n. a = JNum n"
  by (cases a) simp_all

lemma typeOf_string: "typeOf a = ''string'' \<Longrightarrow> \<exists>s. a = JStr s"
  by (cases a) simp_all

lemma typeOf_array: "typeOf a = ''array'' \<Longrightarrow> \<exists>xs. a = JArr xs"
  by (cases a) simp_all

lemma TYPE_ORDER_inj:
  "map_of TYPE_ORDER s = Some p \<Longrightarrow> map_of TYPE_ORDER t = Some p \<Longrightarrow> s = t"
  by (auto simp: TYPE_ORDER_def split: if_splits)

lemma spaceship_Fin:
  "spaceship H (JNum (Fin x)) (JNum (Fin y)) = (if y < x then 1 else if x < y then - 1 else 0)"
  by (simp add: spaceship_def Let_def)

lemma spaceship_nat:
  "spaceship H (JNum (Fin (of_nat m))) (JNum (Fin (of_nat n))) = sgn (int m - int n)"
  by (auto simp: spaceship_def Let_def sgn_if)

lemma spaceship_Undefined [simp]:
  "spaceship H Undefined b = 0" "spaceship H a Undefined = 0"
  by (cases "to_number H a"; simp add: spaceship_def Let_def)+

lemma spaceship_num_antisym:
  "spaceship H (JNum y) (JNum x) = - spaceship H (JNum x) (JNum y)"
  by (cases x; cases y) (simp_all add: spaceship_def)

declare compare.simps(1) [simp del]

lemma compare_JNum_JNum: "compare H (JNum x) (JNum y) = Inr (spaceship H (JNum x) (JNum y))"
  by (simp add: compare.simps(1) Let_def TYPE_ORDER_at_def TYPE_ORDER_def spaceship_def)

lemma compare_JStr_JStr: "compare H (JStr s) (JStr t) = Inr (sgn (localeCompare H s t))"
  by (simp add: compare.simps(1) Let_def TYPE_ORDER_at_def TYPE_ORDER_def spaceship_def sgn_if)

lemma math_min_nat:
  "math_min (Fin (of_nat m)) (Fin (of_nat n)) = Fin (of_nat (min m n))"
  by (simp add: min_def)

lemma compare_JArr_JArr:
  "compare H (JArr xs) (JArr ys) =
    (case compare_loop H xs (JArr ys) 0 (Fin (of_nat (min (length xs) (length ys)))) of
       Inl e \<Rightarrow> Inl e
     | Inr r \<Rightarrow> if r \<noteq> 0 then Inr r else Inr (sgn (int (length xs) - int (length ys))))"
  by (simp add: compare.simps(1) Let_def TYPE_ORDER_at_def TYPE_ORDER_def spaceship_Fin
        spaceship_nat math_min_nat del: math_min.simps cong: sum.case_cong if_cong)

lemma code_unit_compare_antisym:
  "sgn (code_unit_compare t s) = - sgn (code_unit_compare s t)"
  by (induction s t rule: code_unit_compare.induct) auto

text \<open>
  C3. The claim: \<^verbatim>\<open>compare\<close> returns a value for every pair of inputs and never throws.
  The code throws on a date and an error object: the table \<open>TYPE_ORDER\<close> has no entry for
  \<^verbatim>\<open>'error'\<close> (nor for \<^verbatim>\<open>'regexp'\<close> and \<^verbatim>\<open>'filelist'\<close>), the comparison of the
  precedences is \<open>0\<close>, the case \<^verbatim>\<open>'date'\<close> is entered and calls \<^verbatim>\<open>getTime\<close> on the error.
\<close>

theorem compare_date_error_throws:
  "compare H (JDate (Fin 0)) (JError ''x'') = Inl TypeError"
  by (simp add: compare.simps(1) TYPE_ORDER_at_def TYPE_ORDER_def)

text \<open>
  C4. When the kinds of \<open>a\<close> and \<open>b\<close> differ and both are in the precedence table,
  \<^verbatim>\<open>compare(a, b)\<close> is the sign of the difference of the precedences, whatever the values
  hold; when one of the kinds is not in the table, the comparison of the precedences
  gives \<open>0\<close>.
\<close>

theorem compare_kind_precedence:
  "(typeOf a \<noteq> typeOf b \<and> map_of TYPE_ORDER (typeOf a) = Some pa
      \<and> map_of TYPE_ORDER (typeOf b) = Some pb
      \<longrightarrow> compare H a b = Inr (sgn (int pa - int pb)))
   \<and> (map_of TYPE_ORDER (typeOf a) = None \<or> map_of TYPE_ORDER (typeOf b) = None
      \<longrightarrow> spaceship H (TYPE_ORDER_at (typeOf a)) (TYPE_ORDER_at (typeOf b)) = 0)"
proof (intro conjI impI)
  assume h: "typeOf a \<noteq> typeOf b \<and> map_of TYPE_ORDER (typeOf a) = Some pa
      \<and> map_of TYPE_ORDER (typeOf b) = Some pb"
  then have ne: "pa \<noteq> pb" using TYPE_ORDER_inj by blast
  have "spaceship H (TYPE_ORDER_at (typeOf a)) (TYPE_ORDER_at (typeOf b)) = sgn (int pa - int pb)"
    using h by (simp add: TYPE_ORDER_at_def spaceship_nat)
  moreover have "sgn (int pa - int pb) \<noteq> 0" using ne by (simp add: sgn_if)
  ultimately show "compare H a b = Inr (sgn (int pa - int pb))"
    by (simp add: compare.simps(1) Let_def)
next
  assume "map_of TYPE_ORDER (typeOf a) = None \<or> map_of TYPE_ORDER (typeOf b) = None"
  then show "spaceship H (TYPE_ORDER_at (typeOf a)) (TYPE_ORDER_at (typeOf b)) = 0"
    by (auto simp: TYPE_ORDER_at_def)
qed

theorem compare_kind_precedence_witness:
  "typeOf (JNum (Fin 5)) \<noteq> typeOf (JStr ''a'')
   \<and> map_of TYPE_ORDER (typeOf (JNum (Fin 5))) = Some 3
   \<and> map_of TYPE_ORDER (typeOf (JStr ''a'')) = Some 4
   \<and> compare sample_env (JNum (Fin 5)) (JStr ''a'') = Inr (- 1)
   \<and> map_of TYPE_ORDER (typeOf (JRegExp ''a'' [])) = None
   \<and> spaceship sample_env (TYPE_ORDER_at (typeOf (JRegExp ''a'' [])))
        (TYPE_ORDER_at (typeOf (JNum (Fin 5)))) = 0"
  using compare_kind_precedence [of "JNum (Fin 5)" "JStr ''a''" 3 4 sample_env]
    compare_kind_precedence [of "JRegExp ''a'' []" "JNum (Fin 5)" 0 0 sample_env]
  by (simp add: TYPE_ORDER_def)

lemma compare_loop_all_equal:
  "\<forall>j < length zs. i + j < n \<longrightarrow> compare H (zs ! j) (ys ! (i + j)) = Inr 0 \<Longrightarrow>
   n \<le> length ys \<Longrightarrow>
   compare_loop H zs (JArr ys) i (Fin (of_nat n)) = Inr 0"
proof (induction zs arbitrary: i)
  case Nil
  then show ?case by simp
next
  case (Cons z zs)
  show ?case
  proof (cases "i < n")
    case False
    then show ?thesis by simp
  next
    case True
    have z: "compare H z (ys ! i) = Inr 0"
      using Cons.prems(1) True by force
    have rest: "\<forall>j < length zs. Suc i + j < n \<longrightarrow> compare H (zs ! j) (ys ! (Suc i + j)) = Inr 0"
    proof (intro allI impI)
      fix j assume "j < length zs" "Suc i + j < n"
      then show "compare H (zs ! j) (ys ! (Suc i + j)) = Inr 0"
        using Cons.prems(1) [rule_format, of "Suc j"] by simp
    qed
    have "compare_loop H zs (JArr ys) (Suc i) (Fin (of_nat n)) = Inr 0"
      using Cons.IH [OF rest Cons.prems(2)] .
    then show ?thesis using True z Cons.prems(2) by simp
  qed
qed

lemma compare_loop_first_nonzero:
  "k < length zs \<Longrightarrow> i + k < n \<Longrightarrow> n \<le> length ys \<Longrightarrow>
   \<forall>j < k. compare H (zs ! j) (ys ! (i + j)) = Inr 0 \<Longrightarrow>
   compare H (zs ! k) (ys ! (i + k)) = Inr r \<Longrightarrow> r \<noteq> 0 \<Longrightarrow>
   compare_loop H zs (JArr ys) i (Fin (of_nat n)) = Inr r"
proof (induction zs arbitrary: i k)
  case Nil
  then show ?case by simp
next
  case (Cons z zs)
  have lt: "i < n" using Cons.prems(2) by simp
  show ?case
  proof (cases k)
    case 0
    then show ?thesis using Cons.prems lt by simp
  next
    case (Suc k')
    have z: "compare H z (ys ! i) = Inr 0"
      using Cons.prems(4) Suc by force
    have rest: "\<forall>j < k'. compare H (zs ! j) (ys ! (Suc i + j)) = Inr 0"
    proof (intro allI impI)
      fix j assume "j < k'"
      then show "compare H (zs ! j) (ys ! (Suc i + j)) = Inr 0"
        using Cons.prems(4) [rule_format, of "Suc j"] Suc by simp
    qed
    have "compare_loop H zs (JArr ys) (Suc i) (Fin (of_nat n)) = Inr r"
      using Cons.IH [of k' "Suc i"] Cons.prems Suc rest by simp
    then show ?thesis using lt z Cons.prems(3) by simp
  qed
qed

text \<open>
  C6. For two arrays, \<^verbatim>\<open>compare\<close> compares the elements at the positions below the
  smaller length, in order, and gives the first result other than \<open>0\<close>; when all these
  comparisons give \<open>0\<close> it gives the sign of the difference of the lengths, so that the
  shorter array comes first.
\<close>

theorem compare_arrays_elementwise:
  "(i < min (length xs) (length ys)
      \<and> (\<forall>j < i. compare H (xs ! j) (ys ! j) = Inr 0)
      \<and> compare H (xs ! i) (ys ! i) = Inr r \<and> r \<noteq> 0
      \<longrightarrow> compare H (JArr xs) (JArr ys) = Inr r)
   \<and> ((\<forall>j < min (length xs) (length ys). compare H (xs ! j) (ys ! j) = Inr 0)
      \<longrightarrow> compare H (JArr xs) (JArr ys) = Inr (sgn (int (length xs) - int (length ys))))"
proof (intro conjI impI)
  assume h: "i < min (length xs) (length ys)
      \<and> (\<forall>j < i. compare H (xs ! j) (ys ! j) = Inr 0)
      \<and> compare H (xs ! i) (ys ! i) = Inr r \<and> r \<noteq> 0"
  have "compare_loop H xs (JArr ys) 0 (Fin (of_nat (min (length xs) (length ys)))) = Inr r"
    using compare_loop_first_nonzero [of i xs 0 "min (length xs) (length ys)" ys H r] h by simp
  then show "compare H (JArr xs) (JArr ys) = Inr r"
    using h by (simp add: compare_JArr_JArr)
next
  assume h: "\<forall>j < min (length xs) (length ys). compare H (xs ! j) (ys ! j) = Inr 0"
  have "compare_loop H xs (JArr ys) 0 (Fin (of_nat (min (length xs) (length ys)))) = Inr 0"
    using compare_loop_all_equal [of xs 0 "min (length xs) (length ys)" H ys] h by simp
  then show "compare H (JArr xs) (JArr ys) = Inr (sgn (int (length xs) - int (length ys)))"
    by (simp add: compare_JArr_JArr)
qed

theorem compare_arrays_elementwise_witness:
  "compare sample_env (JNum (Fin 1)) (JNum (Fin 1)) = Inr 0
   \<and> compare sample_env (JStr ''a'') (JStr ''b'') = Inr (- 1)
   \<and> compare sample_env (JArr [JNum (Fin 1), JStr ''a'']) (JArr [JNum (Fin 1), JStr ''b'', Null])
       = Inr (- 1)
   \<and> compare sample_env (JArr [JNum (Fin 1)]) (JArr [JNum (Fin 1), Null]) = Inr (- 1)"
  using compare_arrays_elementwise [of 1 "[JNum (Fin 1), JStr ''a'']"
      "[JNum (Fin 1), JStr ''b'', Null]" sample_env "- 1"]
    compare_arrays_elementwise [of 0 "[JNum (Fin 1)]" "[JNum (Fin 1), Null]" sample_env 0]
  by (simp add: compare_JNum_JNum compare_JStr_JStr spaceship_Fin sample_env_def)

text \<open>
  C9. For two numbers and for two strings, \<^verbatim>\<open>compare(b, a)\<close> is the negation of
  \<^verbatim>\<open>compare(a, b)\<close>. For strings the result is the sign of \<^verbatim>\<open>localeCompare\<close>, which the
  language requires to be a consistent comparison: this is the hypothesis on the
  environment.
\<close>

theorem compare_antisym_number_string:
  assumes "\<forall>s t. sgn (localeCompare H t s) = - sgn (localeCompare H s t)"
      and "typeOf a = typeOf b"
      and "typeOf a = ''number'' \<or> typeOf a = ''string''"
  shows "\<exists>r. compare H a b = Inr r \<and> compare H b a = Inr (- r)"
  using assms(3)
proof
  assume "typeOf a = ''number''"
  then obtain x y where "a = JNum x" "b = JNum y"
    using assms(2) typeOf_number by metis
  then show ?thesis
    using spaceship_num_antisym [of H y x] by (simp add: compare_JNum_JNum)
next
  assume "typeOf a = ''string''"
  then obtain s t where "a = JStr s" "b = JStr t"
    using assms(2) typeOf_string by metis
  then show ?thesis
    using assms(1) [rule_format, of s t] by (simp add: compare_JStr_JStr)
qed

theorem compare_antisym_number_string_witness:
  "(\<forall>s t. sgn (localeCompare sample_env t s) = - sgn (localeCompare sample_env s t))
   \<and> typeOf (JStr ''b'') = typeOf (JStr ''a'')
   \<and> compare sample_env (JStr ''b'') (JStr ''a'') = Inr 1
   \<and> compare sample_env (JStr ''a'') (JStr ''b'') = Inr (- 1)
   \<and> compare sample_env (JNum NaN) (JNum (Fin 2)) = Inr 0
   \<and> compare sample_env (JNum (Fin 2)) (JNum NaN) = Inr 0"
proof -
  have h: "\<forall>s t. sgn (localeCompare sample_env t s) = - sgn (localeCompare sample_env s t)"
  proof (intro allI)
    fix s t
    show "sgn (localeCompare sample_env t s) = - sgn (localeCompare sample_env s t)"
      by (simp add: sample_env_def code_unit_compare_antisym [of t s])
  qed
  have ba: "compare sample_env (JStr ''b'') (JStr ''a'') = Inr 1"
    by (simp add: compare_JStr_JStr sample_env_def)
  have na: "compare sample_env (JNum NaN) (JNum (Fin 2)) = Inr 0"
    by (simp add: compare_JNum_JNum spaceship_def)
  from compare_antisym_number_string [OF h, of "JStr ''b''" "JStr ''a''"] ba
  have ab: "compare sample_env (JStr ''a'') (JStr ''b'') = Inr (- 1)" by auto
  from compare_antisym_number_string [OF h, of "JNum NaN" "JNum (Fin 2)"] na
  have an: "compare sample_env (JNum (Fin 2)) (JNum NaN) = Inr 0" by auto
  have ty: "typeOf (JStr ''b'') = typeOf (JStr ''a'')" by simp
  show ?thesis by (intro conjI h ty ba ab na an)
qed

section \<open>Properties of the sorter\<close>

lemma mset_insert_elem:
  "insert_elem cmp x ys = Inr zs \<Longrightarrow> mset zs = add_mset x (mset ys)"
proof (induction ys arbitrary: zs)
  case Nil
  then show ?case by auto
next
  case (Cons y ys)
  then show ?case
    by (auto split: sum.splits if_splits)
qed

lemma mset_sort_elems:
  "sort_elems cmp xs = Inr ys \<Longrightarrow> mset ys = mset xs"
proof (induction xs arbitrary: ys)
  case Nil
  then show ?case by simp
next
  case (Cons x xs)
  then show ?case
    by (auto split: sum.splits dest: mset_insert_elem)
qed

lemma sortBy_unfold:
  "sortBy H h ary keys desc =
    (case sort_elems (SortCompare (sortBy_comparefn H (as_key_list keys) desc)) (h ! ary) of
       Inl e \<Rightarrow> (Inl e, h @ [h ! ary])
     | Inr ys \<Rightarrow> (Inr (length h), h @ [ys]))"
  by (simp add: sortBy_def array_slice_def array_sort_def split: sum.splits)

text \<open>
  C7. \<^verbatim>\<open>sortBy\<close> leaves the array it is given as it was, and every other array of the
  store too; the array it returns is a new one.
\<close>

theorem sortBy_input_unchanged:
  "ary < length h \<Longrightarrow>
   snd (sortBy H h ary keys desc) ! ary = h ! ary
   \<and> take (length h) (snd (sortBy H h ary keys desc)) = h
   \<and> (\<forall>r. fst (sortBy H h ary keys desc) = Inr r \<longrightarrow> r \<noteq> ary \<and> length h \<le> r)"
  by (auto simp: sortBy_unfold nth_append split: sum.splits)

theorem sortBy_input_unchanged_witness:
  "0 < length sample_store
   \<and> fst (sortBy sample_env sample_store 0 (OneKey ''a'') None) = Inr 1
   \<and> snd (sortBy sample_env sample_store 0 (OneKey ''a'') None) ! 0 = sample_store ! 0
   \<and> snd (sortBy sample_env sample_store 0 (OneKey ''a'') None) ! 1
       = [JObj [(''a'', JNum (Fin 1))], JObj [(''a'', JNum (Fin 2))], JObj [(''a'', JNum (Fin 3))]]"
proof -
  have e: "sortBy sample_env sample_store 0 (OneKey ''a'') None =
    (Inr 1, sample_store @
      [[JObj [(''a'', JNum (Fin 1))], JObj [(''a'', JNum (Fin 2))], JObj [(''a'', JNum (Fin 3))]]])"
    by code_simp
  have l: "0 < length sample_store" by (simp add: sample_store_def)
  from sortBy_input_unchanged [OF l, of sample_env "OneKey ''a''" None]
  have "snd (sortBy sample_env sample_store 0 (OneKey ''a'') None) ! 0 = sample_store ! 0"
    by simp
  then show ?thesis using l e by (simp add: sample_store_def)
qed

lemma insert_elem_returns:
  "\<forall>y \<in> set ys. \<exists>v. cmp x y = Inr v \<Longrightarrow> \<exists>zs. insert_elem cmp x ys = Inr zs"
proof (induction ys)
  case Nil
  then show ?case by simp
next
  case (Cons y ys)
  then obtain v zs where "cmp x y = Inr v" "insert_elem cmp x ys = Inr zs"
    by auto
  then show ?case by simp
qed

lemma sort_elems_returns:
  "\<forall>x \<in> set xs. \<forall>y \<in> set xs. \<exists>v. cmp x y = Inr v \<Longrightarrow> \<exists>ys. sort_elems cmp xs = Inr ys"
proof (induction xs)
  case Nil
  then show ?case by simp
next
  case (Cons x xs)
  then obtain ys where ys: "sort_elems cmp xs = Inr ys"
    by auto
  have "set ys = set xs"
    using mset_sort_elems [OF ys] by (rule mset_eq_setD)
  then have "\<forall>y \<in> set ys. \<exists>v. cmp x y = Inr v"
    using Cons.prems by simp
  with insert_elem_returns [of ys cmp x] ys show ?case by simp
qed

text \<open>
  C10. The array \<^verbatim>\<open>sortBy\<close> returns holds the elements of the array it was given, each
  as often as there, and so has the same length. It returns one whenever no call of the
  callback on two elements of the array throws.
\<close>

theorem sortBy_permutation:
  "ary < length h \<Longrightarrow>
   (sortBy H h ary keys desc = (Inr r, h')
      \<longrightarrow> mset (h' ! r) = mset (h ! ary) \<and> length (h' ! r) = length (h ! ary))
   \<and> ((\<forall>x \<in> set (h ! ary). \<forall>y \<in> set (h ! ary).
          \<exists>v. SortCompare (sortBy_comparefn H (as_key_list keys) desc) x y = Inr v)
      \<longrightarrow> (\<exists>c h''. sortBy H h ary keys desc = (Inr c, h'')))"
proof (rule conjI; rule impI)
  assume e: "sortBy H h ary keys desc = (Inr r, h')"
  then obtain ys where
    ys: "sort_elems (SortCompare (sortBy_comparefn H (as_key_list keys) desc)) (h ! ary) = Inr ys"
    and r: "r = length h" and h': "h' = h @ [ys]"
    by (auto simp: sortBy_unfold split: sum.splits)
  have m: "mset (h' ! r) = mset (h ! ary)"
    using mset_sort_elems [OF ys] r h' by simp
  then have "length (h' ! r) = length (h ! ary)" by (rule mset_eq_length)
  with m show "mset (h' ! r) = mset (h ! ary) \<and> length (h' ! r) = length (h ! ary)" by simp
next
  assume "\<forall>x \<in> set (h ! ary). \<forall>y \<in> set (h ! ary).
          \<exists>v. SortCompare (sortBy_comparefn H (as_key_list keys) desc) x y = Inr v"
  with sort_elems_returns [of "h ! ary" "SortCompare (sortBy_comparefn H (as_key_list keys) desc)"]
  show "\<exists>c h''. sortBy H h ary keys desc = (Inr c, h'')"
    by (auto simp: sortBy_unfold)
qed

theorem sortBy_permutation_witness:
  "0 < length sample_store
   \<and> sortBy sample_env sample_store 0 (OneKey ''a:desc'') None =
       (Inr 1, sample_store @
         [[JObj [(''a'', JNum (Fin 3))], JObj [(''a'', JNum (Fin 2))], JObj [(''a'', JNum (Fin 1))]]])
   \<and> mset [JObj [(''a'', JNum (Fin 3))], JObj [(''a'', JNum (Fin 2))], JObj [(''a'', JNum (Fin 1))]]
       = mset (sample_store ! 0)
   \<and> (\<exists>c h''. sortBy sample_env sample_store 0 (OneKey ''a'') (Some True) = (Inr c, h''))"
proof -
  let ?res = "[JObj [(''a'', JNum (Fin 3))], JObj [(''a'', JNum (Fin 2))], JObj [(''a'', JNum (Fin 1))]]"
  have e: "sortBy sample_env sample_store 0 (OneKey ''a:desc'') None =
    (Inr 1, sample_store @ [?res])"
    by code_simp
  have l: "0 < length sample_store" by (simp add: sample_store_def)
  from sortBy_permutation [OF l, of sample_env "OneKey ''a:desc''" None 1 "sample_store @ [?res]"] e
  have m: "mset ?res = mset (sample_store ! 0)"
    by (simp add: sample_store_def)
  have p: "parseField ''a'' = \<lparr>ISortOpt.field = ''a'', reverse = False\<rparr>"
    by (simp add: parseField_def)
  have t: "\<forall>x \<in> set (sample_store ! 0). \<forall>y \<in> set (sample_store ! 0).
          \<exists>v. SortCompare (sortBy_comparefn sample_env (as_key_list (OneKey ''a'')) (Some True)) x y
                = Inr v"
    by (simp add: sample_store_def SortCompare_def p sample_env_def get_path_def
        compare_JNum_JNum spaceship_Fin)
  from sortBy_permutation [OF l, of sample_env "OneKey ''a''" "Some True"] t
  have r: "\<exists>c h''. sortBy sample_env sample_store 0 (OneKey ''a'') (Some True) = (Inr c, h'')"
    by blast
  show ?thesis by (intro conjI l e m r)
qed

lemma split_on_absent: "c \<notin> set s \<Longrightarrow> split_on c s = [s]"
  by (induction s) auto

lemma split_on_first: "c \<notin> set p \<Longrightarrow> split_on c (p @ c # s) = p # split_on c s"
  by (induction p) auto

lemma parseField_desc:
  "CHR '':'' \<notin> set f \<Longrightarrow> parseField (f @ '':desc'') = \<lparr>ISortOpt.field = f, reverse = True\<rparr>"
  by (simp add: parseField_def split_on_first split_on_absent)

lemma insert_elem_sorted:
  fixes key :: "'a \<Rightarrow> 'k::linorder"
  assumes "\<forall>y \<in> set ys. cmp x y = Inr (if key y < key x then 1 else if key x < key y then - 1 else 0)"
      and "sorted (map key ys)"
  shows "\<exists>zs. insert_elem cmp x ys = Inr zs \<and> sorted (map key zs) \<and> set zs = insert x (set ys)"
  using assms
proof (induction ys)
  case Nil
  then show ?case by simp
next
  case (Cons y ys)
  show ?case
  proof (cases "key y < key x")
    case False
    then have "cmp x y = Inr (if key x < key y then - 1 else 0)"
      using Cons.prems(1) by simp
    then show ?thesis using False Cons.prems(2) by auto
  next
    case True
    have c: "cmp x y = Inr 1" using Cons.prems(1) True by simp
    obtain zs where zs: "insert_elem cmp x ys = Inr zs" "sorted (map key zs)"
        "set zs = insert x (set ys)"
      using Cons.IH Cons.prems by auto
    have "sorted (map key (y # zs))"
      using zs Cons.prems(2) True by auto
    then show ?thesis using c zs by auto
  qed
qed

lemma sort_elems_sorted:
  fixes key :: "'a \<Rightarrow> 'k::linorder"
  assumes "\<forall>x \<in> set xs. \<forall>y \<in> set xs.
             cmp x y = Inr (if key y < key x then 1 else if key x < key y then - 1 else 0)"
  shows "\<exists>ys. sort_elems cmp xs = Inr ys \<and> sorted (map key ys) \<and> set ys = set xs"
  using assms
proof (induction xs)
  case Nil
  then show ?case by simp
next
  case (Cons x xs)
  obtain ys where ys: "sort_elems cmp xs = Inr ys" "sorted (map key ys)" "set ys = set xs"
    using Cons.IH Cons.prems by auto
  have "\<forall>y \<in> set ys. cmp x y = Inr (if key y < key x then 1 else if key x < key y then - 1 else 0)"
    using Cons.prems ys(3) by simp
  with insert_elem_sorted [of ys cmp x key] ys(2)
  obtain zs where "insert_elem cmp x ys = Inr zs" "sorted (map key zs)" "set zs = insert x (set ys)"
    by auto
  then show ?case using ys by auto
qed

lemma comparefn_desc_desc:
  "CHR '':'' \<notin> set f \<Longrightarrow>
   sortBy_comparefn H [f @ '':desc''] (Some True) objA objB = compare H (get H objA f) (get H objB f)"
  by (simp add: parseField_desc Let_def split: sum.splits)

lemma sortBy_comparefn_ties:
  "\<forall>p \<in> set pre. compare H (get H objA (ISortOpt.field (parseField p)))
                      (get H objB (ISortOpt.field (parseField p))) = Inr 0 \<Longrightarrow>
   sortBy_comparefn H (pre @ rest) desc objA objB = sortBy_comparefn H rest desc objA objB"
  by (induction pre) (simp_all add: Let_def)

text \<open>
  C5. Whatever the position of a key in the list of keys: when the keys before it compare
  as \<open>0\<close> and its own comparison is not \<open>0\<close>, the callback of \<^verbatim>\<open>sortBy\<close> returns that
  comparison with its sign flipped once if \<^verbatim>\<open>desc\<close> is set and once more if the key ends
  in \<^verbatim>\<open>:desc\<close>. With \<^verbatim>\<open>desc\<close> set and the key \<^verbatim>\<open>f:desc\<close> the two flips cancel: the
  callback is the comparison of the field \<open>f\<close>, and records whose field \<open>f\<close> is a finite
  number come out in ascending order of it.
\<close>

theorem sortBy_sign_flips:
  "((\<forall>p \<in> set pre. compare H (get H objA (ISortOpt.field (parseField p)))
                        (get H objB (ISortOpt.field (parseField p))) = Inr 0)
      \<and> compare H (get H objA (ISortOpt.field (parseField k)))
            (get H objB (ISortOpt.field (parseField k))) = Inr r \<and> r \<noteq> 0
      \<longrightarrow> sortBy_comparefn H (pre @ k # ks) desc objA objB
          = Inr ((if reverse (parseField k) then - 1 else 1)
                  * ((if desc = Some True then - 1 else 1) * r)))
   \<and> (CHR '':'' \<notin> set f
      \<longrightarrow> sortBy_comparefn H [f @ '':desc''] (Some True) objA objB
          = compare H (get H objA f) (get H objB f))
   \<and> (CHR '':'' \<notin> set f \<and> ary < length h
        \<and> (\<forall>x \<in> set (h ! ary). x \<noteq> Undefined \<and> get H x f = JNum (Fin (key x)))
      \<longrightarrow> (\<exists>c h'. sortBy H h ary (OneKey (f @ '':desc'')) (Some True) = (Inr c, h')
                \<and> sorted (map key (h' ! c))))"
proof (intro conjI impI)
  assume a: "(\<forall>p \<in> set pre. compare H (get H objA (ISortOpt.field (parseField p)))
                        (get H objB (ISortOpt.field (parseField p))) = Inr 0)
      \<and> compare H (get H objA (ISortOpt.field (parseField k)))
            (get H objB (ISortOpt.field (parseField k))) = Inr r \<and> r \<noteq> 0"
  then have "sortBy_comparefn H (pre @ k # ks) desc objA objB
      = sortBy_comparefn H (k # ks) desc objA objB"
    using sortBy_comparefn_ties [of pre H objA objB "k # ks" desc] by blast
  also have "\<dots> = Inr ((if reverse (parseField k) then - 1 else 1)
                  * ((if desc = Some True then - 1 else 1) * r))"
    using a by (simp add: Let_def)
  finally show "sortBy_comparefn H (pre @ k # ks) desc objA objB
          = Inr ((if reverse (parseField k) then - 1 else 1)
                  * ((if desc = Some True then - 1 else 1) * r))" .
next
  assume "CHR '':'' \<notin> set f"
  then show "sortBy_comparefn H [f @ '':desc''] (Some True) objA objB
          = compare H (get H objA f) (get H objB f)"
    by (rule comparefn_desc_desc)
next
  assume a: "CHR '':'' \<notin> set f \<and> ary < length h
        \<and> (\<forall>x \<in> set (h ! ary). x \<noteq> Undefined \<and> get H x f = JNum (Fin (key x)))"
  let ?cmp = "SortCompare (sortBy_comparefn H [f @ '':desc''] (Some True))"
  have "\<forall>x \<in> set (h ! ary). \<forall>y \<in> set (h ! ary).
          ?cmp x y = Inr (if key y < key x then 1 else if key x < key y then - 1 else 0)"
    using a by (simp add: SortCompare_def comparefn_desc_desc compare_JNum_JNum spaceship_Fin
        del: sortBy_comparefn.simps)
  with sort_elems_sorted [of "h ! ary" ?cmp key]
  obtain ys where "sort_elems ?cmp (h ! ary) = Inr ys" "sorted (map key ys)"
    by auto
  then show "\<exists>c h'. sortBy H h ary (OneKey (f @ '':desc'')) (Some True) = (Inr c, h')
                \<and> sorted (map key (h' ! c))"
    by (simp add: sortBy_unfold)
qed

theorem sortBy_sign_flips_witness:
  "compare sample_env (JNum (Fin 2)) (JNum (Fin 1)) = Inr 1
   \<and> compare sample_env (JNum (Fin 5)) (JNum (Fin 5)) = Inr 0
   \<and> parseField ''a:desc'' = \<lparr>ISortOpt.field = ''a'', reverse = True\<rparr>
   \<and> sortBy_comparefn sample_env [''a:desc''] (Some True)
        (JObj [(''a'', JNum (Fin 2)), (''b'', JNum (Fin 5))])
        (JObj [(''a'', JNum (Fin 1)), (''b'', JNum (Fin 5))]) = Inr 1
   \<and> sortBy_comparefn sample_env [''a:desc''] None
        (JObj [(''a'', JNum (Fin 2)), (''b'', JNum (Fin 5))])
        (JObj [(''a'', JNum (Fin 1)), (''b'', JNum (Fin 5))]) = Inr (- 1)
   \<and> sortBy_comparefn sample_env [''a''] (Some True)
        (JObj [(''a'', JNum (Fin 2)), (''b'', JNum (Fin 5))])
        (JObj [(''a'', JNum (Fin 1)), (''b'', JNum (Fin 5))]) = Inr (- 1)
   \<and> sortBy_comparefn sample_env [''b'', ''a''] (Some True)
        (JObj [(''a'', JNum (Fin 2)), (''b'', JNum (Fin 5))])
        (JObj [(''a'', JNum (Fin 1)), (''b'', JNum (Fin 5))]) = Inr (- 1)
   \<and> sortBy_comparefn sample_env [''b'', ''b:desc'', ''a:desc'', ''b''] (Some True)
        (JObj [(''a'', JNum (Fin 2)), (''b'', JNum (Fin 5))])
        (JObj [(''a'', JNum (Fin 1)), (''b'', JNum (Fin 5))]) = Inr 1
   \<and> (\<exists>c h'. sortBy sample_env sample_store 0 (OneKey ''a:desc'') (Some True) = (Inr c, h')
         \<and> sorted (map (num_field ''a'') (h' ! c)))"
proof -
  let ?A = "JObj [(''a'', JNum (Fin 2)), (''b'', JNum (Fin 5))]"
  let ?B = "JObj [(''a'', JNum (Fin 1)), (''b'', JNum (Fin 5))]"
  have p: "parseField ''a:desc'' = \<lparr>ISortOpt.field = ''a'', reverse = True\<rparr>"
    and q: "parseField ''a'' = \<lparr>ISortOpt.field = ''a'', reverse = False\<rparr>"
    and pb: "parseField ''b:desc'' = \<lparr>ISortOpt.field = ''b'', reverse = True\<rparr>"
    and qb: "parseField ''b'' = \<lparr>ISortOpt.field = ''b'', reverse = False\<rparr>"
    by (simp_all add: parseField_def)
  have g: "get sample_env ?A ''a'' = JNum (Fin 2)" "get sample_env ?B ''a'' = JNum (Fin 1)"
    "get sample_env ?A ''b'' = JNum (Fin 5)" "get sample_env ?B ''b'' = JNum (Fin 5)"
    by (simp_all add: sample_env_def get_path_def)
  have c: "compare sample_env (JNum (Fin 2)) (JNum (Fin 1)) = Inr 1"
    by (simp add: compare_JNum_JNum spaceship_Fin)
  have t: "compare sample_env (JNum (Fin 5)) (JNum (Fin 5)) = Inr 0"
    by (simp add: compare_JNum_JNum spaceship_Fin)
  have 1: "sortBy_comparefn sample_env [''a:desc''] (Some True) ?A ?B = Inr 1"
    using sortBy_sign_flips [where pre = "[]" and H = sample_env and objA = ?A and objB = ?B
        and k = "''a:desc''" and r = 1 and ks = "[]" and desc = "Some True"] p g c
    by simp
  have 2: "sortBy_comparefn sample_env [''a:desc''] None ?A ?B = Inr (- 1)"
    using sortBy_sign_flips [where pre = "[]" and H = sample_env and objA = ?A and objB = ?B
        and k = "''a:desc''" and r = 1 and ks = "[]" and desc = None] p g c
    by simp
  have 3: "sortBy_comparefn sample_env [''a''] (Some True) ?A ?B = Inr (- 1)"
    using sortBy_sign_flips [where pre = "[]" and H = sample_env and objA = ?A and objB = ?B
        and k = "''a''" and r = 1 and ks = "[]" and desc = "Some True"] q g c
    by simp
  have 4: "sortBy_comparefn sample_env [''b'', ''a''] (Some True) ?A ?B = Inr (- 1)"
    using sortBy_sign_flips [where pre = "[''b'']" and H = sample_env and objA = ?A
        and objB = ?B and k = "''a''" and r = 1 and ks = "[]" and desc = "Some True"] q qb g c t
    by simp
  have 5: "sortBy_comparefn sample_env [''b'', ''b:desc'', ''a:desc'', ''b''] (Some True) ?A ?B
      = Inr 1"
    using sortBy_sign_flips [where pre = "[''b'', ''b:desc'']" and H = sample_env and objA = ?A
        and objB = ?B and k = "''a:desc''" and r = 1 and ks = "[''b'']" and desc = "Some True"]
      p pb qb g c t
    by simp
  have 6: "\<exists>c h'. sortBy sample_env sample_store 0 (OneKey ''a:desc'') (Some True) = (Inr c, h')
         \<and> sorted (map (num_field ''a'') (h' ! c))"
    using sortBy_sign_flips [where H = sample_env and f = "''a''" and ary = 0
        and h = sample_store and key = "num_field ''a''"]
    by (simp add: sample_store_def sample_env_def get_path_def num_field_def)
  show ?thesis by (intro conjI c t p 1 2 3 4 5 6)
qed

section \<open>Properties of the normaliser\<close>

declare split_splitRegex.simps [simp del]

lemma split_splitRegex_Nil: "split_splitRegex [] = [[]]"
  by (subst split_splitRegex.simps) simp

lemma split_splitRegex_digit:
  "is_digit c \<Longrightarrow>
   split_splitRegex (c # cs) =
     (if dropWhile is_digit cs = [] then [c # takeWhile is_digit cs]
      else (c # takeWhile is_digit cs)
           # takeWhile (\<lambda>x. \<not> is_digit x) (dropWhile is_digit cs)
           # split_splitRegex (dropWhile (\<lambda>x. \<not> is_digit x) (dropWhile is_digit cs)))"
  by (subst split_splitRegex.simps) (simp add: Let_def)

lemma split_splitRegex_other:
  "\<not> is_digit c \<Longrightarrow>
   split_splitRegex (c # cs) =
     [] # (c # takeWhile (\<lambda>x. \<not> is_digit x) cs)
        # split_splitRegex (dropWhile (\<lambda>x. \<not> is_digit x) cs)"
  by (subst split_splitRegex.simps) (simp add: Let_def)

lemma runs_other:
  "r \<noteq> [] \<Longrightarrow> \<not> is_digit (hd r) \<Longrightarrow>
   runs r = takeWhile (\<lambda>x. \<not> is_digit x) r # runs (dropWhile (\<lambda>x. \<not> is_digit x) r)"
  by (cases r) simp_all

lemma runs_split_splitRegex:
  "filter (\<lambda>x. x \<noteq> []) (split_splitRegex s) = runs s"
proof (induction "length s" arbitrary: s rule: less_induct)
  case less
  show ?case
  proof (cases s)
    case Nil
    then show ?thesis by (simp add: split_splitRegex_Nil)
  next
    case (Cons c cs)
    show ?thesis
    proof (cases "is_digit c")
      case False
      have "length (dropWhile (\<lambda>x. \<not> is_digit x) cs) < length s"
        using Cons by (simp add: length_dropWhile_le less_Suc_eq_le)
      from less [OF this] show ?thesis
        using Cons False by (simp add: split_splitRegex_other)
    next
      case True
      let ?r = "dropWhile is_digit cs"
      show ?thesis
      proof (cases "?r = []")
        case e: True
        then show ?thesis using Cons True
          by (simp add: split_splitRegex_digit del: dropWhile_eq_Nil_conv)
      next
        case ne: False
        have hd: "\<not> is_digit (hd ?r)" using hd_dropWhile [OF ne] .
        have nonempty: "takeWhile (\<lambda>x. \<not> is_digit x) ?r \<noteq> []"
          using ne hd by (cases ?r) simp_all
        have "length (dropWhile (\<lambda>x. \<not> is_digit x) ?r) \<le> length ?r"
          by (rule length_dropWhile_le)
        also have "\<dots> \<le> length cs" by (rule length_dropWhile_le)
        finally have "length (dropWhile (\<lambda>x. \<not> is_digit x) ?r) < length s"
          using Cons by simp
        from less [OF this] show ?thesis
          using Cons True ne nonempty runs_other [OF ne hd]
          by (simp add: split_splitRegex_digit del: dropWhile_eq_Nil_conv)
      qed
    qed
  qed
qed

lemma pad_run_eq:
  "(if match_notNumericRegex x then strPad x 10 CHR ''0'' else x) = pad_run x"
  by (auto simp: match_notNumericRegex_def strPad_def pad_run_def)

lemma concat_map_pad_run_filter:
  "concat (map pad_run (filter (\<lambda>x. x \<noteq> []) xs)) = concat (map pad_run xs)"
  by (induction xs) (auto simp: pad_run_def)

text \<open>
  C8. On a string, \<^verbatim>\<open>sortableNumericSuffix\<close> cuts the string into its runs of digits and
  of other characters, pads each run of at most ten digits with \<^verbatim>\<open>0\<close> on the left to
  ten characters, leaves the other runs, joins the runs in their order and trims the
  result. A value that is not a string is returned as it is.
\<close>

theorem sortableNumericSuffix_runs:
  "sortableNumericSuffix (JStr s) = JStr (trim (concat (map pad_run (runs s))))
   \<and> ((\<forall>t. v \<noteq> JStr t) \<longrightarrow> sortableNumericSuffix v = v)"
proof
  have "concat (map (\<lambda>x. if match_notNumericRegex x then strPad x 10 CHR ''0'' else x)
          (split_splitRegex s)) = concat (map pad_run (split_splitRegex s))"
    by (simp add: pad_run_eq)
  also have "\<dots> = concat (map pad_run (runs s))"
    using concat_map_pad_run_filter [of "split_splitRegex s"]
    by (simp add: runs_split_splitRegex)
  finally show "sortableNumericSuffix (JStr s) = JStr (trim (concat (map pad_run (runs s))))"
    by (simp add: sortableNumericSuffix_def)
next
  show "(\<forall>t. v \<noteq> JStr t) \<longrightarrow> sortableNumericSuffix v = v"
    by (cases v) (simp_all add: sortableNumericSuffix_def)
qed

theorem sortableNumericSuffix_runs_witness:
  "runs '' item2-x12345678901 '' = ['' item'', ''2'', ''-x'', ''12345678901'', '' '']
   \<and> sortableNumericSuffix (JStr '' item2-x12345678901 '') = JStr ''item0000000002-x12345678901''
   \<and> (\<forall>t. JNum (Fin 7) \<noteq> JStr t)
   \<and> sortableNumericSuffix (JNum (Fin 7)) = JNum (Fin 7)"
proof -
  have r: "runs '' item2-x12345678901 '' = ['' item'', ''2'', ''-x'', ''12345678901'', '' '']"
    by code_simp
  have t: "trim (concat (map pad_run ['' item'', ''2'', ''-x'', ''12345678901'', '' '']))
        = ''item0000000002-x12345678901''"
    by code_simp
  have n: "\<forall>t. JNum (Fin 7) \<noteq> JStr t" by simp
  have 1: "sortableNumericSuffix (JStr '' item2-x12345678901 '') = JStr ''item0000000002-x12345678901''"
    using sortableNumericSuffix_runs [of " '' item2-x12345678901 ''" Null] r t by simp
  have 2: "sortableNumericSuffix (JNum (Fin 7)) = JNum (Fin 7)"
    using sortableNumericSuffix_runs [of "[]" "JNum (Fin 7)"] n by blast
  show ?thesis by (intro conjI r 1 n 2)
qed

section \<open>Properties of the search\<close>

lemma fields_loop_list_ex:
  "fields_loop H row token specs = list_ex (spec_matches H row token) specs"
  by (induction specs) auto

lemma tokens_loop_some:
  "tokens_loop H row specs tokens = some_token_matches H row tokens specs"
  by (induction tokens) (auto simp: some_token_matches_def fields_loop_list_ex)

lemma rows_loop_filter:
  "rows_loop H tokens specs rows out =
     out @ filter (\<lambda>row. some_token_matches H row tokens specs) rows"
  by (induction rows arbitrary: out) (auto simp: tokens_loop_some)

lemma search_field_spec_modifier: "modifier (search_field_spec key) = []"
  by (simp add: search_field_spec_def Let_def substring_def substring_from_def)

text \<open>
  C1. The claim: \<^verbatim>\<open>search\<close> keeps a record if and only if every token of the query
  matches one of the fields. The loop over the tokens stops at the first token that
  matches and keeps the record: with the query \<^verbatim>\<open>foo bar\<close> a record named \<^verbatim>\<open>foo\<close> is
  kept although the token \<^verbatim>\<open>bar\<close> matches no field.
\<close>

theorem search_every_token_counterexample:
  "search sample_env [JObj [(''name'', JStr ''foo'')]] (Some ''foo bar'') (OneKey ''name'')
     = [JObj [(''name'', JStr ''foo'')]]
   \<and> \<not> every_token_matches sample_env (JObj [(''name'', JStr ''foo'')])
         (query_tokens (Some ''foo bar'')) (search_fields (OneKey ''name''))"
  by code_simp

text \<open>
  C1, amended. \<^verbatim>\<open>search\<close> keeps a record if and only if at least one token of the query
  matches at least one of the fields; the records kept stay in their order.
\<close>

theorem search_keeps_some_token:
  "search H ary query keys =
     filter (\<lambda>row. some_token_matches H row (query_tokens query) (search_fields keys)) ary"
  by (simp add: search_def rows_loop_filter)

theorem search_keeps_some_token_witness:
  "search sample_env [JObj [(''name'', JStr ''foo'')], JObj [(''name'', JStr ''qux'')]]
     (Some ''foo bar'') (OneKey ''name'') = [JObj [(''name'', JStr ''foo'')]]"
proof -
  have "filter (\<lambda>row. some_token_matches sample_env row (query_tokens (Some ''foo bar''))
            (search_fields (OneKey ''name'')))
          [JObj [(''name'', JStr ''foo'')], JObj [(''name'', JStr ''qux'')]]
        = [JObj [(''name'', JStr ''foo'')]]"
    by code_simp
  then show ?thesis
    using search_keeps_some_token [of sample_env
        "[JObj [(''name'', JStr ''foo'')], JObj [(''name'', JStr ''qux'')]]"
        "Some ''foo bar''" "OneKey ''name''"]
    by simp
qed

text \<open>
  C2. The claim: a key \<^verbatim>\<open>path:exact\<close> gives a field spec with the modifier
  \<^verbatim>\<open>exact\<close>, and a token matches the field only when it equals the lowercased value.
  The callback overwrites \<^verbatim>\<open>field\<close> with the path before it reads the modifier from
  it, so the modifier is always empty and the match is by substring: with the key
  \<^verbatim>\<open>name:exact\<close> the query \<^verbatim>\<open>foo\<close> keeps a record named \<^verbatim>\<open>Foo Bar\<close>.
\<close>

theorem search_exact_modifier_lost:
  "modifier (search_field_spec key) = []
   \<and> search_field_spec ''name:exact'' = \<lparr>FieldSpec.field = ''name'', modifier = []\<rparr>
   \<and> search sample_env [JObj [(''name'', JStr ''Foo Bar'')]] (Some ''foo'') (OneKey ''name:exact'')
       = [JObj [(''name'', JStr ''Foo Bar'')]]"
proof (intro conjI)
  show "modifier (search_field_spec key) = []"
    by (rule search_field_spec_modifier)
  show "search_field_spec ''name:exact'' = \<lparr>FieldSpec.field = ''name'', modifier = []\<rparr>"
    by code_simp
  show "search sample_env [JObj [(''name'', JStr ''Foo Bar'')]] (Some ''foo'') (OneKey ''name:exact'')
       = [JObj [(''name'', JStr ''Foo Bar'')]]"
    by code_simp
qed

end
